theory Spec2Isabelle
  imports Complex_Main "HOL-Library.Multiset"
begin

section \<open>Course recommender: pair aggregation, index construction, lookup\<close>

text \<open>
  A shallow embedding of \<^verbatim>\<open>src/recommender.py\<close>. Course and user identifiers are Python
  integers (\<open>int\<close>). Quality scores and edge weights are Python floats in the source; they
  are modelled by real numbers (\<open>real\<close>), so the theorems below speak about the
  arithmetic the code writes down, not about binary rounding.

  A \<^verbatim>\<open>Counter\<close> and a \<^verbatim>\<open>dict\<close> iterate in insertion order, which the index builder
  observes; both are association lists here. The quality table is the DataFrame
  \<^verbatim>\<open>quality_metrics.set_index('course_id')\<close>, a list of rows \<open>(course_id, quality_score)\<close>
  in row order.
\<close>

subsection \<open>Pair aggregation (\<^verbatim>\<open>analyze_joint_purchases\<close>)\<close>

text \<open>\<^verbatim>\<open>itertools.combinations(xs, 2)\<close>: all pairs of positions \<open>i < j\<close>, in lexicographic order.\<close>

fun combinations2 :: "'a list \<Rightarrow> ('a \<times> 'a) list" where
  "combinations2 [] = []"
| "combinations2 (x # xs) = map (Pair x) xs @ combinations2 xs"

text \<open>One \<^verbatim>\<open>Counter\<close> increment: an existing key keeps its place, a new key goes last.\<close>

fun counter_incr :: "'k \<Rightarrow> ('k \<times> int) list \<Rightarrow> ('k \<times> int) list" where
  "counter_incr k [] = [(k, 1)]"
| "counter_incr k ((k', c) # rest) =
     (if k = k' then (k', c + 1) # rest else (k', c) # counter_incr k rest)"

definition Counter :: "'k list \<Rightarrow> ('k \<times> int) list" where
  "Counter xs = foldl (\<lambda>m k. counter_incr k m) [] xs"

text \<open>
  \<^verbatim>\<open>purchase_data.groupby('user_id')['course_id'].apply(list)\<close>: one group per user id,
  groups in ascending order of the key, each group listing the user's rows in row order
  (repeated rows stay repeated).
\<close>

definition groupby_user :: "(int \<times> int) list \<Rightarrow> (int \<times> int list) list" where
  "groupby_user purchase_data =
     map (\<lambda>u. (u, map snd (filter (\<lambda>r. fst r = u) purchase_data)))
       (sort (remdups (map fst purchase_data)))"

definition user_pairs :: "int list \<Rightarrow> (int \<times> int) list" where
  "user_pairs courses =
     (if length courses \<ge> 2 then combinations2 (sort courses) else [])"

definition all_pairs :: "(int \<times> int) list \<Rightarrow> (int \<times> int) list" where
  "all_pairs purchase_data =
     concat (map (\<lambda>(u, courses). user_pairs courses) (groupby_user purchase_data))"

definition analyze_joint_purchases :: "(int \<times> int) list \<Rightarrow> ((int \<times> int) \<times> int) list" where
  "analyze_joint_purchases purchase_data = Counter (all_pairs purchase_data)"

subsection \<open>The recommender object\<close>

type_synonym edge = "int \<times> real"

record CourseRecommender =
  pair_counts :: "((int \<times> int) \<times> int) list"
  quality_metrics :: "(int \<times> real) list"
  all_courses :: "int set"
  threshold :: int
  recommendation_index :: "int \<rightharpoonup> edge list"

datatype error = IndexError

text \<open>\<^verbatim>\<open>_get_course_score\<close>: the course's row divided by 100, or 0.5 without a row.\<close>

definition get_course_score :: "(int \<times> real) list \<Rightarrow> int \<Rightarrow> real" where
  "get_course_score qm course_id =
     (case map_of qm course_id of Some quality_score \<Rightarrow> quality_score / 100 | None \<Rightarrow> 1 / 2)"

text \<open>\<^verbatim>\<open>if c not in index: index[c] = []\<close> followed by \<^verbatim>\<open>index[c].append(e)\<close>.\<close>

definition append_edge :: "(int \<rightharpoonup> edge list) \<Rightarrow> int \<Rightarrow> edge \<Rightarrow> (int \<rightharpoonup> edge list)" where
  "append_edge index c e =
     (case index c of None \<Rightarrow> index(c \<mapsto> [e]) | Some es \<Rightarrow> index(c \<mapsto> es @ [e]))"

definition pair_weight :: "(int \<times> real) list \<Rightarrow> int \<Rightarrow> int \<Rightarrow> int \<Rightarrow> real" where
  "pair_weight qm course1 course2 cnt =
     (let score1 = get_course_score qm course1;
          score2 = get_course_score qm course2
      in of_int cnt * ((score1 + score2) / 2))"

text \<open>The body of the loop over \<^verbatim>\<open>self.pair_counts.items()\<close>.\<close>

fun insert_pair ::
  "(int \<times> real) list \<Rightarrow> (int \<rightharpoonup> edge list) \<Rightarrow> (int \<times> int) \<times> int \<Rightarrow> (int \<rightharpoonup> edge list)" where
  "insert_pair qm index ((course1, course2), cnt) =
     (let weight = pair_weight qm course1 course2 cnt;
          index1 = append_edge index course1 (course2, weight)
      in append_edge index1 course2 (course1, weight))"

definition inserted_edges ::
  "(int \<times> real) list \<Rightarrow> ((int \<times> int) \<times> int) list \<Rightarrow> (int \<rightharpoonup> edge list)" where
  "inserted_edges qm pcs = foldl (insert_pair qm) Map.empty pcs"

text \<open>
  \<^verbatim>\<open>list.sort(key=lambda x: x[1], reverse=True)\<close> is a stable sort into descending order of
  the key; it is the stable ascending sort on the negated weight.
\<close>

definition sort_edges :: "edge list \<Rightarrow> edge list" where
  "sort_edges es = sort_key (\<lambda>x. - snd x) es"

definition build_recommendation_index ::
  "(int \<times> real) list \<Rightarrow> ((int \<times> int) \<times> int) list \<Rightarrow> (int \<rightharpoonup> edge list)" where
  "build_recommendation_index qm pcs =
     (\<lambda>course. map_option sort_edges (inserted_edges qm pcs course))"

text \<open>\<^verbatim>\<open>CourseRecommender.__init__\<close>.\<close>

definition init ::
  "((int \<times> int) \<times> int) list \<Rightarrow> (int \<times> real) list \<Rightarrow> int list \<Rightarrow> int \<Rightarrow> CourseRecommender" where
  "init pcs qm courses t =
     (let kept = filter (\<lambda>(pair, cnt). cnt > t) pcs
      in \<lparr> pair_counts = kept,
           quality_metrics = qm,
           all_courses = set courses,
           threshold = t,
           recommendation_index = build_recommendation_index qm kept \<rparr>)"

subsection \<open>Lookup (\<^verbatim>\<open>get_recommendations\<close>)\<close>

text \<open>
  The \<^verbatim>\<open>for\<close> loop over the course's edge list: the quality test, the append, and the
  \<^verbatim>\<open>break\<close> that is tested after every edge.
\<close>

fun walk_edges :: "(int \<times> real) list \<Rightarrow> int \<Rightarrow> real \<Rightarrow> edge list \<Rightarrow> int list \<Rightarrow> int list" where
  "walk_edges qm n min_quality [] recommendations = recommendations"
| "walk_edges qm n min_quality ((candidate_course, weight) # rest) recommendations =
     (let candidate_score = get_course_score qm candidate_course * 100;
          recommendations1 =
            (if candidate_score \<ge> min_quality then recommendations @ [candidate_course]
             else recommendations)
      in if int (length recommendations1) \<ge> n then recommendations1
         else walk_edges qm n min_quality rest recommendations1)"

definition get_recommendations ::
  "CourseRecommender \<Rightarrow> int \<Rightarrow> int \<Rightarrow> real \<Rightarrow> error + int list" where
  "get_recommendations self course_id n min_quality =
     (case recommendation_index self course_id of
        None \<Rightarrow> Inr []
      | Some es \<Rightarrow> Inr (walk_edges (quality_metrics self) n min_quality es []))"

subsection \<open>Backfill and padding (the loop body of \<^verbatim>\<open>get_all_recommendations\<close>)\<close>

text \<open>
  \<^verbatim>\<open>np.random.choice\<close> reads the global generator. The generator is an explicit argument
  here: a sequence of naturals, of which each draw consumes the first and leaves the rest;
  the drawn element is the one at that position modulo the length of the list.
\<close>

type_synonym rng = "nat \<Rightarrow> nat"

definition random_choice :: "rng \<Rightarrow> int list \<Rightarrow> int \<times> rng" where
  "random_choice g available = (available ! (g 0 mod length available), (\<lambda>i. g (Suc i)))"

definition high_quality_courses :: "CourseRecommender \<Rightarrow> int \<Rightarrow> real \<Rightarrow> int list" where
  "high_quality_courses self course_id min_quality =
     map fst (filter (\<lambda>(c, quality_score). quality_score \<ge> min_quality \<and> c \<noteq> course_id)
                (quality_metrics self))"

definition available_courses :: "CourseRecommender \<Rightarrow> int \<Rightarrow> real \<Rightarrow> int list \<Rightarrow> int list" where
  "available_courses self course_id min_quality recs =
     filter (\<lambda>c. c \<notin> set recs) (high_quality_courses self course_id min_quality)"

text \<open>\<^verbatim>\<open>while len(recs) < n and available: ...\<close>\<close>

function backfill :: "rng \<Rightarrow> int \<Rightarrow> int list \<Rightarrow> int list \<Rightarrow> int list \<times> rng" where
  "backfill g n recs available =
     (if int (length recs) < n \<and> available \<noteq> [] then
        (let (new_rec, g1) = random_choice g available
         in backfill g1 n (recs @ [new_rec]) (remove1 new_rec available))
      else (recs, g))"
  by pat_completeness auto
termination
proof (relation "measure (\<lambda>(g, n, recs, available). length available)")
  show "wf (measure (\<lambda>(g, n, recs, available). length available))" by simp
next
  fix g :: rng and n :: int and recs available :: "int list" and x new_rec g1
  assume a: "int (length recs) < n \<and> available \<noteq> []"
    and x: "x = random_choice g available" and p: "(new_rec, g1) = x"
  from a have "g 0 mod length available < length available" by simp
  with x p have "new_rec \<in> set available" by (auto simp: random_choice_def)
  then have "length (remove1 new_rec available) < length available"
    by (simp add: length_remove1) (cases available; simp)
  then show "((g1, n, recs @ [new_rec], remove1 new_rec available), (g, n, recs, available))
     \<in> measure (\<lambda>(g, n, recs, available). length available)" by simp
qed

declare backfill.simps [simp del]

text \<open>
  \<^verbatim>\<open>while len(recs) < n: recs.append(None)\<close>. A slot is an \<open>int option\<close>: a course is
  \<open>Some c\<close> and Python's sentinel is \<open>None\<close>.
\<close>

definition pad_none :: "int \<Rightarrow> int list \<Rightarrow> int option list" where
  "pad_none n recs = map Some recs @ replicate (nat (n - int (length recs))) None"

text \<open>
  The resolver for one course: lines 116 to 140 of \<^verbatim>\<open>get_all_recommendations\<close>, that is
  the primary lookup, the backfill when it came back short, and the padding.
\<close>

definition recommend ::
  "rng \<Rightarrow> CourseRecommender \<Rightarrow> int \<Rightarrow> int \<Rightarrow> real \<Rightarrow> (error + int option list) \<times> rng" where
  "recommend g self course_id n min_quality =
     (case get_recommendations self course_id n min_quality of
        Inl e \<Rightarrow> (Inl e, g)
      | Inr recs \<Rightarrow>
          (let (recs1, g1) =
                 (if int (length recs) < n
                  then backfill g n recs (available_courses self course_id min_quality recs)
                  else (recs, g))
           in (Inr (pad_none n recs1), g1)))"

subsection \<open>The batch table (\<^verbatim>\<open>get_all_recommendations\<close>)\<close>

record RecommendationRecord =
  course_id :: int
  course_quality :: real
  recomm_one :: "int option"
  recomm_one_quality :: "real option"
  recomm_two :: "int option"
  recomm_two_quality :: "real option"
  has_recommendations :: bool

text \<open>
  The quality of one slot: the table's score when the slot holds a course that has a row,
  \<^verbatim>\<open>None\<close> otherwise.
\<close>

definition rec_quality :: "(int \<times> real) list \<Rightarrow> int option \<Rightarrow> real option" where
  "rec_quality qm r = (case r of None \<Rightarrow> None | Some c \<Rightarrow> map_of qm c)"

text \<open>
  The row of one course. It reads \<^verbatim>\<open>recs[0]\<close> and \<^verbatim>\<open>recs[1]\<close>, which raise
  \<^verbatim>\<open>IndexError\<close> on a list shorter than two.
\<close>

definition make_record ::
  "CourseRecommender \<Rightarrow> int \<Rightarrow> int option list \<Rightarrow> error + RecommendationRecord" where
  "make_record self c recs =
     (case recs of
        r0 # r1 # rest \<Rightarrow>
          Inr \<lparr> course_id = c,
                course_quality = get_course_score (quality_metrics self) c * 100,
                recomm_one = r0,
                recomm_one_quality = rec_quality (quality_metrics self) r0,
                recomm_two = r1,
                recomm_two_quality = rec_quality (quality_metrics self) r1,
                has_recommendations = (r0 \<noteq> None) \<rparr>
      | _ \<Rightarrow> Inl IndexError)"

fun all_rows ::
  "rng \<Rightarrow> CourseRecommender \<Rightarrow> int \<Rightarrow> real \<Rightarrow> int list \<Rightarrow> (error + RecommendationRecord list) \<times> rng" where
  "all_rows g self n min_quality [] = (Inr [], g)"
| "all_rows g self n min_quality (c # cs) =
     (case recommend g self c n min_quality of
        (Inl e, g1) \<Rightarrow> (Inl e, g1)
      | (Inr recs, g1) \<Rightarrow>
          (case make_record self c recs of
             Inl e \<Rightarrow> (Inl e, g1)
           | Inr row \<Rightarrow>
               (case all_rows g1 self n min_quality cs of
                  (Inl e, g2) \<Rightarrow> (Inl e, g2)
                | (Inr rows, g2) \<Rightarrow> (Inr (row # rows), g2))))"

definition get_all_recommendations ::
  "rng \<Rightarrow> CourseRecommender \<Rightarrow> int \<Rightarrow> real \<Rightarrow> (error + RecommendationRecord list) \<times> rng" where
  "get_all_recommendations g self n min_quality =
     all_rows g self n min_quality (sorted_list_of_set (all_courses self))"

subsection \<open>Auxiliary notions for stating the properties\<close>

text \<open>The edge list the index holds for a course; empty when the course has no entry.\<close>

definition edges_of :: "(int \<rightharpoonup> edge list) \<Rightarrow> int \<Rightarrow> edge list" where
  "edges_of index c = (case index c of None \<Rightarrow> [] | Some es \<Rightarrow> es)"

text \<open>The edges that one entry of the pair counts appends to the list of course \<open>c\<close>.\<close>

fun pair_edges :: "(int \<times> real) list \<Rightarrow> int \<Rightarrow> (int \<times> int) \<times> int \<Rightarrow> edge list" where
  "pair_edges qm c ((a, b), n) =
     (if c = a then [(b, pair_weight qm a b n)] else []) @
     (if c = b then [(a, pair_weight qm a b n)] else [])"

section \<open>Properties of the index\<close>

subsection \<open>What the construction loop appends\<close>

lemma edges_of_append_edge:
  "edges_of (append_edge index c e) c' = edges_of index c' @ (if c' = c then [e] else [])"
  by (simp add: edges_of_def append_edge_def split: option.splits)

lemma append_edge_nonempty:
  "\<forall>c. index c \<noteq> Some [] \<Longrightarrow> append_edge index c e c' \<noteq> Some []"
  by (simp add: append_edge_def split: option.splits)

lemma edges_of_insert_pair:
  "edges_of (insert_pair qm index p) c = edges_of index c @ pair_edges qm c p"
proof -
  obtain a b n where "p = ((a, b), n)" by (metis prod.collapse)
  then show ?thesis by (simp add: Let_def edges_of_append_edge)
qed

lemma insert_pair_nonempty:
  "\<forall>c. index c \<noteq> Some [] \<Longrightarrow> insert_pair qm index p c' \<noteq> Some []"
proof -
  assume h: "\<forall>c. index c \<noteq> Some []"
  obtain a b n where p: "p = ((a, b), n)" by (metis prod.collapse)
  have "\<forall>c. append_edge index a (b, pair_weight qm a b n) c \<noteq> Some []"
    using h by (simp add: append_edge_nonempty)
  then show ?thesis using p by (simp add: Let_def append_edge_nonempty)
qed

lemma edges_of_foldl:
  "edges_of (foldl (insert_pair qm) index pcs) c = edges_of index c @ concat (map (pair_edges qm c) pcs)"
  by (induction pcs arbitrary: index) (simp_all add: edges_of_insert_pair)

lemma foldl_nonempty:
  "\<forall>c. index c \<noteq> Some [] \<Longrightarrow> foldl (insert_pair qm) index pcs c' \<noteq> Some []"
  by (induction pcs arbitrary: index) (simp_all add: insert_pair_nonempty)

lemma edges_of_inserted:
  "edges_of (inserted_edges qm pcs) c = concat (map (pair_edges qm c) pcs)"
  by (simp add: inserted_edges_def edges_of_foldl) (simp add: edges_of_def)

lemma inserted_nonempty: "inserted_edges qm pcs c \<noteq> Some []"
  unfolding inserted_edges_def by (rule foldl_nonempty) simp

lemma inserted_edges_eq:
  "inserted_edges qm pcs c =
     (if concat (map (pair_edges qm c) pcs) = [] then None else Some (concat (map (pair_edges qm c) pcs)))"
  using edges_of_inserted[of qm pcs c] inserted_nonempty[of qm pcs c]
  by (auto simp: edges_of_def split: option.splits)

lemma edges_of_build:
  "edges_of (build_recommendation_index qm pcs) c = sort_edges (concat (map (pair_edges qm c) pcs))"
proof -
  define es where "es = concat (map (pair_edges qm c) pcs)"
  have "inserted_edges qm pcs c = (if es = [] then None else Some es)"
    unfolding es_def by (rule inserted_edges_eq)
  then have "edges_of (build_recommendation_index qm pcs) c = sort_edges es"
    by (cases "es = []") (simp_all add: build_recommendation_index_def edges_of_def sort_edges_def)
  then show ?thesis by (simp add: es_def)
qed

lemma index_init:
  "recommendation_index (init pcs qm cs t) = build_recommendation_index qm (filter (\<lambda>(pair, cnt). cnt > t) pcs)"
  by (simp add: init_def Let_def)

lemma set_edges_of_build:
  "set (edges_of (build_recommendation_index qm pcs) c) = (\<Union>p\<in>set pcs. set (pair_edges qm c p))"
  by (simp add: edges_of_build sort_edges_def)


lemma count_list_concat_map:
  "count_list (concat (map f xs)) x = sum_list (map (\<lambda>p. count_list (f p) x) xs)"
  by (induction xs) simp_all

lemma count_list_sort_edges: "count_list (sort_edges es) x = count_list es x"
  by (simp add: sort_edges_def flip: count_mset)

lemma pair_edges_swap:
  "count_list (pair_edges qm c1 p) (c2, w) = count_list (pair_edges qm c2 p) (c1, w)"
proof -
  obtain a b n where "p = ((a, b), n)" by (metis prod.collapse)
  then show ?thesis by auto
qed

lemma index_nonempty_iff:
  "build_recommendation_index qm pcs c \<noteq> None \<longleftrightarrow> edges_of (build_recommendation_index qm pcs) c \<noteq> []"
proof -
  have "sort_edges es = [] \<longleftrightarrow> es = []" for es
    unfolding sort_edges_def by (metis length_sort length_0_conv)
  with inserted_nonempty[of qm pcs c] show ?thesis
    by (auto simp: build_recommendation_index_def edges_of_def split: option.splits)
qed

subsection \<open>The three-user example, evaluated\<close>

lemma example_pairs:
  "analyze_joint_purchases [(1, 101), (1, 102), (2, 101), (2, 103), (3, 102), (3, 103)]
     = [((101, 102), 1), ((101, 103), 1), ((102, 103), 1)]"
  by (simp add: analyze_joint_purchases_def all_pairs_def groupby_user_def user_pairs_def
      Counter_def)

lemma example_edges_101:
  "edges_of (recommendation_index
       (init [((101, 102), 1), ((101, 103), 1), ((102, 103), 1)]
          [(101, 80), (102, 60), (103, 40)] cs 0)) 101
     = [(102, 7 / 10), (103, 3 / 5)]"
  by (simp add: index_init edges_of_build pair_weight_def get_course_score_def sort_edges_def)

lemma example_index_101:
  "recommendation_index
       (init [((101, 102), 1), ((101, 103), 1), ((102, 103), 1)]
          [(101, 80), (102, 60), (103, 40)] cs 0) 101
     = Some [(102, 7 / 10), (103, 3 / 5)]"
  by (simp add: index_init build_recommendation_index_def inserted_edges_eq pair_weight_def
      get_course_score_def sort_edges_def)

text \<open>Two pairs of equal weight: courses 2 and 3 tie in the list of course 1.\<close>

lemma tie_index_1:
  "recommendation_index (init [((1, 2), 1), ((1, 3), 1)] [] cs 0) 1
     = Some [(2, 1 / 2), (3, 1 / 2)]"
  by (simp add: index_init build_recommendation_index_def inserted_edges_eq pair_weight_def
      get_course_score_def sort_edges_def)

subsection \<open>Symmetry, order and stability\<close>

text \<open>
  Claim C10. The built index is symmetric: the entry \<open>(c2, w)\<close> occurs in the edge list
  of \<open>c1\<close> exactly as often as \<open>(c1, w)\<close> occurs in the edge list of \<open>c2\<close>, and a
  course that appears as a candidate has an index entry of its own.
\<close>

theorem index_symmetric:
  "count_list (edges_of (recommendation_index (init pcs qm cs t)) c1) (c2, w) =
     count_list (edges_of (recommendation_index (init pcs qm cs t)) c2) (c1, w)
   \<and> ((c2, w) \<in> set (edges_of (recommendation_index (init pcs qm cs t)) c1)
        \<longrightarrow> recommendation_index (init pcs qm cs t) c2 \<noteq> None)"
proof -
  define kept where "kept = filter (\<lambda>(pair, cnt). cnt > t) pcs"
  define idx where "idx = build_recommendation_index qm kept"
  have idx: "recommendation_index (init pcs qm cs t) = idx"
    by (simp add: index_init idx_def kept_def)
  have sym: "count_list (edges_of idx c1) (c2, w) = count_list (edges_of idx c2) (c1, w)"
    by (simp add: idx_def edges_of_build count_list_sort_edges count_list_concat_map pair_edges_swap)
  have "idx c2 \<noteq> None" if "(c2, w) \<in> set (edges_of idx c1)"
  proof -
    from that have "count_list (edges_of idx c1) (c2, w) \<noteq> 0" by (simp add: count_list_0_iff)
    with sym have "(c1, w) \<in> set (edges_of idx c2)" by (simp add: count_list_0_iff)
    then have "edges_of idx c2 \<noteq> []" by auto
    then show ?thesis unfolding idx_def using index_nonempty_iff[of qm kept c2] by blast
  qed
  with sym idx show ?thesis by simp
qed

text \<open>
  Claim C4. Every edge list of the built index is in descending order of weight, and the
  sort is stable: for each weight \<open>w\<close>, the edges of weight \<open>w\<close> stand in the order in
  which the construction loop appended them (the list before sorting). The sorted list is
  a permutation of the appended one.
\<close>

theorem sorted_stable:
  assumes "recommendation_index (init pcs qm cs t) c = Some es"
  shows "sorted_wrt (\<lambda>a b. snd a \<ge> snd b) es
     \<and> (\<forall>w. filter (\<lambda>e. snd e = w) es =
             filter (\<lambda>e. snd e = w) (edges_of (inserted_edges qm (pair_counts (init pcs qm cs t))) c))
     \<and> mset es = mset (edges_of (inserted_edges qm (pair_counts (init pcs qm cs t))) c)"
proof -
  define kept where "kept = filter (\<lambda>(pair, cnt). cnt > t) pcs"
  define ins where "ins = edges_of (inserted_edges qm kept) c"
  have pc: "pair_counts (init pcs qm cs t) = kept" by (simp add: init_def Let_def kept_def)
  from assms have "build_recommendation_index qm kept c = Some es"
    by (simp add: index_init kept_def)
  then have es: "es = sort_key (\<lambda>x. - snd x) ins"
    by (auto simp: build_recommendation_index_def ins_def edges_of_def sort_edges_def)
  have "sorted (map (\<lambda>x. - snd x) es)" unfolding es by (rule sorted_sort_key)
  then have s: "sorted_wrt (\<lambda>a b. snd a \<ge> snd b) es"
    by (simp add: sorted_wrt_map)
  have st: "filter (\<lambda>e. snd e = w) es = filter (\<lambda>e. snd e = w) ins" for w
    using sort_key_stable[of "\<lambda>x. - snd x" "- w" ins] by (simp add: es)
  have "mset es = mset ins" by (simp add: es)
  with s st pc show ?thesis by (simp add: ins_def)
qed

theorem sorted_stable_witness:
  "recommendation_index (init [((1, 2), 1), ((1, 3), 1)] [] [1, 2, 3] 0) 1
     = Some [(2, 1 / 2), (3, 1 / 2)]
   \<and> filter (\<lambda>e. snd e = 1 / 2) [(2, 1 / 2), (3, 1 / 2 :: real)]
     = filter (\<lambda>e. snd e = 1 / 2)
         (edges_of (inserted_edges []
            (pair_counts (init [((1, 2), 1), ((1, 3), 1)] [] [1, 2, 3] 0))) 1)"
proof -
  note st = sorted_stable [OF tie_index_1 [of "[1, 2, 3]"]]
  from st have "\<forall>w. filter (\<lambda>e. snd e = w) [(2, 1 / 2), (3, 1 / 2 :: real)]
     = filter (\<lambda>e. snd e = w)
         (edges_of (inserted_edges []
            (pair_counts (init [((1, 2), 1), ((1, 3), 1)] [] [1, 2, 3] 0))) 1)"
    by (rule conjunct1 [OF conjunct2])
  then have "filter (\<lambda>e. snd e = 1 / 2) [(2, 1 / 2), (3, 1 / 2 :: real)]
     = filter (\<lambda>e. snd e = 1 / 2)
         (edges_of (inserted_edges []
            (pair_counts (init [((1, 2), 1), ((1, 3), 1)] [] [1, 2, 3] 0))) 1)"
    by (rule spec)
  with tie_index_1 [of "[1, 2, 3]"] show ?thesis by (rule conjI)
qed

theorem index_symmetric_witness:
  "(102, 7 / 10) \<in> set (edges_of (recommendation_index
       (init [((101, 102), 1), ((101, 103), 1), ((102, 103), 1)]
          [(101, 80), (102, 60), (103, 40)] [101, 102, 103] 0)) 101)
   \<and> recommendation_index
       (init [((101, 102), 1), ((101, 103), 1), ((102, 103), 1)]
          [(101, 80), (102, 60), (103, 40)] [101, 102, 103] 0) 102 \<noteq> None"
  using index_symmetric [of "[((101, 102), 1), ((101, 103), 1), ((102, 103), 1)]"
      "[(101, 80), (102, 60), (103, 40)]" "[101, 102, 103]" 0 101 102 "7 / 10"]
  by (simp add: example_edges_101)

section \<open>Threshold and edge weights\<close>

lemma pair_edges_mem:
  "(c, w) \<in> set (pair_edges qm c1 p) \<longleftrightarrow>
     (\<exists>n. (p = ((c1, c), n) \<or> p = ((c, c1), n)) \<and> w = pair_weight qm (fst (fst p)) (snd (fst p)) n)"
proof -
  obtain a b n where "p = ((a, b), n)" by (metis prod.collapse)
  then show ?thesis by auto
qed

lemma edge_in_index_iff:
  "(c, w) \<in> set (edges_of (recommendation_index (init pcs qm cs t)) c1) \<longleftrightarrow>
     (\<exists>n. n > t \<and> ((((c1, c), n) \<in> set pcs \<and> w = pair_weight qm c1 c n)
                 \<or> (((c, c1), n) \<in> set pcs \<and> w = pair_weight qm c c1 n)))"
  by (auto simp: index_init set_edges_of_build pair_edges_mem)

lemma pair_weight_formula:
  "pair_weight qm a b n = of_int n * (get_course_score qm a + get_course_score qm b) / 2"
  by (simp add: pair_weight_def)

lemma pair_weight_commute: "pair_weight qm a b n = pair_weight qm b a n"
  by (simp add: pair_weight_def add.commute)

text \<open>
  Claim C3. For every surviving pair \<open>(c1, c2)\<close> with count \<open>n\<close> (that is, \<open>n\<close> above
  the threshold), the edge inserted in each direction has weight
  \<open>n * (score c1 + score c2) / 2\<close>; conversely every edge of the index comes from a surviving
  pair and carries that weight. The score of a course is its quality score divided by 100
  when the quality table has a row for it, and exactly 0.5 otherwise.
\<close>

theorem edge_weight:
  "(((c1, c2), n) \<in> set pcs \<and> n > t \<longrightarrow>
      (c2, of_int n * (get_course_score qm c1 + get_course_score qm c2) / 2)
         \<in> set (edges_of (recommendation_index (init pcs qm cs t)) c1)
    \<and> (c1, of_int n * (get_course_score qm c1 + get_course_score qm c2) / 2)
         \<in> set (edges_of (recommendation_index (init pcs qm cs t)) c2))
   \<and> ((c, w) \<in> set (edges_of (recommendation_index (init pcs qm cs t)) c1) \<longrightarrow>
        (\<exists>n. n > t \<and> (((c1, c), n) \<in> set pcs \<or> ((c, c1), n) \<in> set pcs)
           \<and> w = of_int n * (get_course_score qm c1 + get_course_score qm c) / 2))
   \<and> get_course_score qm c =
        (case map_of qm c of Some quality_score \<Rightarrow> quality_score / 100 | None \<Rightarrow> 0.5)"
proof -
  have a: "(c2, of_int n * (get_course_score qm c1 + get_course_score qm c2) / 2)
         \<in> set (edges_of (recommendation_index (init pcs qm cs t)) c1)
    \<and> (c1, of_int n * (get_course_score qm c1 + get_course_score qm c2) / 2)
         \<in> set (edges_of (recommendation_index (init pcs qm cs t)) c2)"
    if "((c1, c2), n) \<in> set pcs" "n > t"
    using that unfolding edge_in_index_iff pair_weight_formula by blast
  have b: "\<exists>n. n > t \<and> (((c1, c), n) \<in> set pcs \<or> ((c, c1), n) \<in> set pcs)
           \<and> w = of_int n * (get_course_score qm c1 + get_course_score qm c) / 2"
    if "(c, w) \<in> set (edges_of (recommendation_index (init pcs qm cs t)) c1)"
    using that unfolding edge_in_index_iff pair_weight_formula by (auto simp: add.commute)
  have c: "get_course_score qm c =
        (case map_of qm c of Some quality_score \<Rightarrow> quality_score / 100 | None \<Rightarrow> 0.5)"
    by (simp add: get_course_score_def split: option.splits)
  from a b c show ?thesis by blast
qed

lemma filter_removeAll_below:
  "n \<le> t \<Longrightarrow> filter (\<lambda>(pair, cnt). cnt > t) (removeAll (k, n) pcs) = filter (\<lambda>(pair, cnt). cnt > (t::int)) pcs"
  by (induction pcs) auto

text \<open>
  Claim C2. A pair whose count is at most the threshold contributes no edges: the index
  is the one built without the pair, and, the pair counts being a dictionary of unordered
  pairs (keys distinct, the reversed key absent), the index holds no edge between the two
  courses in either direction. A pair whose count is the threshold plus one, or more,
  contributes an edge in both directions.
\<close>

theorem threshold_boundary:
  assumes "((c1, c2), n) \<in> set pcs"
  shows "(n \<le> t \<longrightarrow>
            recommendation_index (init pcs qm cs t)
              = recommendation_index (init (removeAll ((c1, c2), n) pcs) qm cs t)
          \<and> (distinct (map fst pcs) \<and> (c1 = c2 \<or> (c2, c1) \<notin> fst ` set pcs) \<longrightarrow>
               (\<forall>w. (c2, w) \<notin> set (edges_of (recommendation_index (init pcs qm cs t)) c1)
                  \<and> (c1, w) \<notin> set (edges_of (recommendation_index (init pcs qm cs t)) c2))))
       \<and> (n \<ge> t + 1 \<longrightarrow>
            (\<exists>w. (c2, w) \<in> set (edges_of (recommendation_index (init pcs qm cs t)) c1)
               \<and> (c1, w) \<in> set (edges_of (recommendation_index (init pcs qm cs t)) c2)))"
proof -
  have rm: "recommendation_index (init pcs qm cs t)
              = recommendation_index (init (removeAll ((c1, c2), n) pcs) qm cs t)" if "n \<le> t"
    using that by (simp add: index_init filter_removeAll_below)
  have none: "(c2, w) \<notin> set (edges_of (recommendation_index (init pcs qm cs t)) c1)
                  \<and> (c1, w) \<notin> set (edges_of (recommendation_index (init pcs qm cs t)) c2)"
    if le: "n \<le> t" and d: "distinct (map fst pcs)" and o: "c1 = c2 \<or> (c2, c1) \<notin> fst ` set pcs" for w
  proof -
    have uniq: "m = n" if "((c1, c2), m) \<in> set pcs" for m
      using d that assms by (meson eq_key_imp_eq_value)
    have no: "((c2, c1), m) \<in> set pcs \<Longrightarrow> m = n" for m
      using o uniq by force
    show ?thesis unfolding edge_in_index_iff using uniq no le by auto
  qed
  have some: "\<exists>w. (c2, w) \<in> set (edges_of (recommendation_index (init pcs qm cs t)) c1)
               \<and> (c1, w) \<in> set (edges_of (recommendation_index (init pcs qm cs t)) c2)" if "n \<ge> t + 1"
  proof -
    from that have "n > t" by simp
    with assms show ?thesis unfolding edge_in_index_iff by blast
  qed
  from rm none some show ?thesis by blast
qed


theorem threshold_boundary_witness:
  "(\<forall>w. (2, w) \<notin> set (edges_of (recommendation_index
              (init [((1, 2), 9), ((1, 3), 10)] [] [1, 2, 3] 9)) 1)
      \<and> (1, w) \<notin> set (edges_of (recommendation_index
              (init [((1, 2), 9), ((1, 3), 10)] [] [1, 2, 3] 9)) 2))
   \<and> (\<exists>w. (3, w) \<in> set (edges_of (recommendation_index
              (init [((1, 2), 9), ((1, 3), 10)] [] [1, 2, 3] 9)) 1)
      \<and> (1, w) \<in> set (edges_of (recommendation_index
              (init [((1, 2), 9), ((1, 3), 10)] [] [1, 2, 3] 9)) 3))"
proof -
  have m1: "((1, 2), 9) \<in> set [((1, 2), 9), ((1, 3), 10 :: int)]"
    and m2: "((1, 3), 10) \<in> set [((1, 2), 9), ((1, 3), 10 :: int)]" by simp_all
  have le: "(9 :: int) \<le> 9" and ge: "(10 :: int) \<ge> 9 + 1" by simp_all
  have d: "distinct (map fst [((1, 2), 9), ((1 :: int, 3 :: int), 10 :: int)])
     \<and> ((1 :: int) = 2 \<or> (2, 1) \<notin> fst ` set [((1, 2), 9), ((1 :: int, 3 :: int), 10 :: int)])"
    by simp
  note a = threshold_boundary [where t = 9 and qm = "[]" and cs = "[1, 2, 3]", OF m1]
  note b = threshold_boundary [where t = 9 and qm = "[]" and cs = "[1, 2, 3]", OF m2]
  from a le d have "\<forall>w. (2, w) \<notin> set (edges_of (recommendation_index
              (init [((1, 2), 9), ((1, 3), 10)] [] [1, 2, 3] 9)) 1)
      \<and> (1, w) \<notin> set (edges_of (recommendation_index
              (init [((1, 2), 9), ((1, 3), 10)] [] [1, 2, 3] 9)) 2)"
    by blast
  moreover from b ge have "\<exists>w. (3, w) \<in> set (edges_of (recommendation_index
              (init [((1, 2), 9), ((1, 3), 10)] [] [1, 2, 3] 9)) 1)
      \<and> (1, w) \<in> set (edges_of (recommendation_index
              (init [((1, 2), 9), ((1, 3), 10)] [] [1, 2, 3] 9)) 3)"
    by blast
  ultimately show ?thesis by (rule conjI)
qed

theorem edge_weight_witness:
  "(102, 13 / 10) \<in> set (edges_of (recommendation_index
       (init [((101, 102), 2)] [(101, 80)] [101, 102] 1)) 101)
   \<and> (101, 13 / 10) \<in> set (edges_of (recommendation_index
       (init [((101, 102), 2)] [(101, 80)] [101, 102] 1)) 102)
   \<and> (\<exists>n>1. (((101, 102), n) \<in> set [((101 :: int, 102 :: int), 2 :: int)]
           \<or> ((102, 101), n) \<in> set [((101 :: int, 102 :: int), 2 :: int)])
         \<and> (13 / 10 :: real)
             = of_int n * (get_course_score [(101, 80)] 101 + get_course_score [(101, 80)] 102) / 2)"
proof -
  note w = edge_weight [of 101 102 2 "[((101, 102), 2)]" 1 "[(101, 80)]" "[101, 102]" 102 "13 / 10"]
  have s: "get_course_score [(101, 80)] 101 = 4 / 5" "get_course_score [(101, 80)] 102 = 1 / 2"
    by (simp_all add: get_course_score_def)
  from w have a: "(102, 13 / 10) \<in> set (edges_of (recommendation_index
       (init [((101, 102), 2)] [(101, 80)] [101, 102] 1)) 101)
   \<and> (101, 13 / 10) \<in> set (edges_of (recommendation_index
       (init [((101, 102), 2)] [(101, 80)] [101, 102] 1)) 102)"
    by (simp add: s)
  from w a have "\<exists>n>1. (((101, 102), n) \<in> set [((101 :: int, 102 :: int), 2 :: int)]
           \<or> ((102, 101), n) \<in> set [((101 :: int, 102 :: int), 2 :: int)])
         \<and> (13 / 10 :: real)
             = of_int n * (get_course_score [(101, 80)] 101 + get_course_score [(101, 80)] 102) / 2"
    by blast
  with a show ?thesis by blast
qed

section \<open>The resolver\<close>

subsection \<open>The backfill loop and the primary walk\<close>

lemma random_choice_mem:
  "available \<noteq> [] \<Longrightarrow> fst (random_choice g available) \<in> set available"
  by (simp add: random_choice_def)

lemma backfill_stop:
  assumes "\<not> (int (length recs) < n \<and> available \<noteq> [])"
  shows "backfill g n recs available = (recs, g)"
  by (subst backfill.simps) (simp only: assms if_False)

lemma backfill_step:
  assumes "int (length recs) < n \<and> available \<noteq> []"
  shows "backfill g n recs available =
       backfill (snd (random_choice g available)) n (recs @ [fst (random_choice g available)])
         (remove1 (fst (random_choice g available)) available)"
  using assms by (subst backfill.simps) (simp add: case_prod_beta)

lemma backfill_draws:
  "\<exists>drawn. fst (backfill g n recs available) = recs @ drawn
     \<and> mset drawn \<subseteq># mset available
     \<and> length drawn = min (nat (n - int (length recs))) (length available)"
proof (induction g n recs available rule: backfill.induct)
  case (1 g n recs available)
  show ?case
  proof (cases "int (length recs) < n \<and> available \<noteq> []")
    case False
    then have "backfill g n recs available = (recs, g)" by (rule backfill_stop)
    moreover from False have "min (nat (n - int (length recs))) (length available) = 0" by auto
    ultimately show ?thesis by simp
  next
    case True
    define x where "x = fst (random_choice g available)"
    define g1 where "g1 = snd (random_choice g available)"
    have rc: "random_choice g available = (x, g1)" by (simp add: x_def g1_def)
    from True have mem: "x \<in> set available" unfolding x_def by (simp add: random_choice_mem)
    from "1.IH"[OF True rc[symmetric] refl]
    obtain d where d: "fst (backfill g1 n (recs @ [x]) (remove1 x available)) = (recs @ [x]) @ d"
      "mset d \<subseteq># mset (remove1 x available)"
      "length d = min (nat (n - int (length (recs @ [x])))) (length (remove1 x available))"
      by blast
    have step: "backfill g n recs available = backfill g1 n (recs @ [x]) (remove1 x available)"
      using True by (simp add: backfill_step x_def g1_def)
    have "mset (x # d) \<subseteq># mset available"
      using d(2) mem by (simp add: insert_subset_eq_iff)
    moreover have "length (x # d) = min (nat (n - int (length recs))) (length available)"
    proof -
      from mem have e1: "length available = Suc (length (remove1 x available))"
      proof -
        from mem have "length available > 0" by (cases available) auto
        with mem show ?thesis by (simp add: length_remove1)
      qed
      from True have e2: "nat (n - int (length recs)) = Suc (nat (n - int (length (recs @ [x]))))"
        by simp linarith
      show ?thesis unfolding e2 by (subst e1) (simp add: d(3))
    qed
    moreover have "fst (backfill g n recs available) = recs @ (x # d)"
      using step d(1) by simp
    ultimately show ?thesis by blast
  qed
qed


lemma backfill_set:
  "set (fst (backfill g n recs available)) \<subseteq> set recs \<union> set available"
proof -
  obtain drawn where "fst (backfill g n recs available) = recs @ drawn"
    "mset drawn \<subseteq># mset available"
    using backfill_draws by blast
  then show ?thesis by (auto dest: mset_subset_eqD)
qed

lemma walk_edges_length:
  "int (length recs) < n \<Longrightarrow> int (length (walk_edges qm n mq es recs)) \<le> n"
  by (induction es arbitrary: recs) (auto simp: Let_def)

lemma set_available_courses:
  "set (available_courses self c mq recs) =
     {c'. \<exists>s. (c', s) \<in> set (quality_metrics self) \<and> s \<ge> mq} - {c} - set recs"
  by (auto simp: available_courses_def high_quality_courses_def image_iff)

lemma recommend_short:
  assumes "get_recommendations self c n mq = Inr recs" "int (length recs) < n"
  shows "fst (recommend g self c n mq) =
     Inr (pad_none n (fst (backfill g n recs (available_courses self c mq recs))))"
  using assms by (simp add: recommend_def case_prod_beta)

lemma recommend_full:
  assumes "get_recommendations self c n mq = Inr recs" "\<not> int (length recs) < n"
  shows "fst (recommend g self c n mq) = Inr (pad_none n recs)"
  using assms by (simp add: recommend_def)

lemma recommend_draws:
  assumes "get_recommendations self c n mq = Inr recs" and "int (length recs) < n"
  shows "\<exists>drawn. fst (recommend g self c n mq) = Inr (pad_none n (recs @ drawn))
     \<and> mset drawn \<subseteq># mset (available_courses self c mq recs)
     \<and> length drawn = min (nat (n - int (length recs))) (length (available_courses self c mq recs))"
proof -
  obtain drawn where "fst (backfill g n recs (available_courses self c mq recs)) = recs @ drawn"
    "mset drawn \<subseteq># mset (available_courses self c mq recs)"
    "length drawn = min (nat (n - int (length recs))) (length (available_courses self c mq recs))"
    using backfill_draws by blast
  with recommend_short [OF assms, of g] show ?thesis by auto
qed

lemma get_recommendations_length:
  assumes "n \<ge> 1"
  shows "\<exists>recs. get_recommendations self c n mq = Inr recs \<and> int (length recs) \<le> n"
  using assms walk_edges_length[of "[]" n "quality_metrics self" mq]
  by (auto simp: get_recommendations_def split: option.splits)

lemma pad_none_exact:
  "int (length recs) = n \<Longrightarrow> pad_none n recs = map Some recs"
  by (simp add: pad_none_def)

lemma empty_index: "recommendation_index (init [] qm cs t) c = None"
  by (simp add: init_def Let_def build_recommendation_index_def inserted_edges_def)

subsection \<open>The backfill pool\<close>

text \<open>
  Claim C5, as stated, takes the pool to be all courses whose quality (50 when the course
  has no row in the quality table) reaches \<open>min_quality\<close>. The code draws from the rows of
  the quality table only. With courses 1 and 2 and an empty quality table, course 2 meets
  every condition of the claim for the pool of course 1 (it is a course, its default
  quality 50 reaches 50, it is not the source and not accepted), yet the code's pool does
  not hold it and the slot is padded with the sentinel.
\<close>

theorem backfill_pool_counterexample:
  "2 \<in> all_courses (init [] [] [1, 2] 0)
   \<and> get_course_score (quality_metrics (init [] [] [1, 2] 0)) 2 * 100 \<ge> 50
   \<and> (2 :: int) \<noteq> 1
   \<and> get_recommendations (init [] [] [1, 2] 0) 1 1 50 = Inr []
   \<and> 2 \<notin> set (available_courses (init [] [] [1, 2] 0) 1 50 [])
   \<and> fst (recommend id (init [] [] [1, 2] 0) 1 1 50) = Inr [None]"
  by (simp add: init_def Let_def get_course_score_def get_recommendations_def
      build_recommendation_index_def inserted_edges_def available_courses_def
      high_quality_courses_def recommend_def backfill_stop pad_none_def)

text \<open>
  Claim C5, amended. When the primary phase accepted fewer than \<open>n\<close> candidates, the
  result is the accepted list, then the drawn courses, then padding. The pool is exactly
  the set of courses that have a row in the quality table with a score of at least
  \<open>min_quality\<close>, minus the source course, minus the accepted candidates. The draws are
  without replacement (as a multiset they are contained in the pool), and their number is
  the smaller of the number of missing slots and the size of the pool: drawing goes on
  only while the list is short of \<open>n\<close> and the pool is not empty.
\<close>

theorem backfill_pool:
  assumes "get_recommendations self c n mq = Inr recs" and "int (length recs) < n"
  shows "\<exists>drawn. fst (recommend g self c n mq) = Inr (pad_none n (recs @ drawn))
     \<and> mset drawn \<subseteq># mset (available_courses self c mq recs)
     \<and> length drawn = min (nat (n - int (length recs))) (length (available_courses self c mq recs))
     \<and> set (available_courses self c mq recs) =
         {c'. \<exists>s. (c', s) \<in> set (quality_metrics self) \<and> s \<ge> mq} - {c} - set recs"
  using recommend_draws [OF assms, of g] set_available_courses [of self c mq recs]
  by auto

theorem backfill_pool_witness:
  "get_recommendations (init [] [(1, 80), (2, 60), (3, 40)] [1, 2, 3] 0) 1 1 50 = Inr []
   \<and> (\<exists>drawn. fst (recommend id (init [] [(1, 80), (2, 60), (3, 40)] [1, 2, 3] 0) 1 1 50)
                 = Inr (pad_none 1 ([] @ drawn))
        \<and> mset drawn \<subseteq># mset [2]
        \<and> length drawn = 1)"
proof -
  let ?r = "init [] [(1, 80), (2, 60), (3, 40)] [1, 2, 3] 0"
  have gr: "get_recommendations ?r 1 1 50 = Inr []"
    by (simp add: get_recommendations_def empty_index)
  have short: "int (length ([] :: int list)) < 1" by simp
  have av: "available_courses ?r 1 50 [] = [2]"
    by (simp add: available_courses_def high_quality_courses_def init_def)
  from backfill_pool [OF gr short, of id]
  obtain drawn where "fst (recommend id ?r 1 1 50) = Inr (pad_none 1 ([] @ drawn))"
    "mset drawn \<subseteq># mset (available_courses ?r 1 50 [])"
    "length drawn = min (nat (1 - int (length ([] :: int list)))) (length (available_courses ?r 1 50 []))"
    by blast
  then have "fst (recommend id ?r 1 1 50) = Inr (pad_none 1 ([] @ drawn))
     \<and> mset drawn \<subseteq># mset [2] \<and> length drawn = 1"
    by (simp add: av)
  with gr show ?thesis by blast
qed

subsection \<open>A course without an index entry\<close>






subsection \<open>Filling with \<open>min_quality = 0\<close>\<close>

text \<open>
  Claim C7, as stated, counts the courses of the universe. With three courses in the
  universe, no quality rows and \<open>n = 2\<close>, the resolver returns two sentinels for
  course 1 although the universe has \<open>n + 1\<close> members.
\<close>

theorem min_quality_zero_counterexample:
  "int (card (all_courses (init [] [] [1, 2, 3] 0))) \<ge> 2 + 1
   \<and> fst (recommend id (init [] [] [1, 2, 3] 0) 1 2 0) = Inr [None, None]"
  by (simp add: init_def Let_def get_recommendations_def
      build_recommendation_index_def inserted_edges_def available_courses_def
      high_quality_courses_def recommend_def backfill_stop pad_none_def numeral_2_eq_2)

text \<open>
  Claim C7, amended. With \<open>min_quality = 0\<close>, \<open>n\<close> at least 1 and no negative score in
  the quality table, the resolver returns exactly \<open>n\<close> entries, none of them the sentinel,
  whenever the quality table (from which the backfill draws) has rows for at least
  \<open>n + 1\<close> distinct courses.
\<close>

theorem min_quality_zero:
  assumes "n \<ge> 1"
    and "\<forall>(c', s) \<in> set (quality_metrics self). s \<ge> 0"
    and "int (card (fst ` set (quality_metrics self))) \<ge> n + 1"
  shows "\<exists>res. fst (recommend g self c n 0) = Inr res \<and> int (length res) = n \<and> None \<notin> set res"
proof -
  obtain recs where gr: "get_recommendations self c n 0 = Inr recs" and le: "int (length recs) \<le> n"
    using get_recommendations_length[OF assms(1)] by blast
  show ?thesis
  proof (cases "int (length recs) < n")
    case False
    with le have "int (length recs) = n" by simp
    with recommend_full[OF gr False, of g] show ?thesis by (auto simp: pad_none_exact)
  next
    case True
    let ?av = "available_courses self c 0 recs"
    obtain drawn where d: "fst (recommend g self c n 0) = Inr (pad_none n (recs @ drawn))"
      "length drawn = min (nat (n - int (length recs))) (length ?av)"
      using recommend_draws [OF gr True, of g] by blast
    have "set ?av = fst ` set (quality_metrics self) - {c} - set recs"
      unfolding set_available_courses using assms(2) by force
    then have "card (set ?av) \<ge> card (fst ` set (quality_metrics self)) - card {c} - card (set recs)"
      by (metis List.finite_set diff_card_le_card_Diff finite.emptyI finite.insertI diff_le_mono
          le_trans)
    moreover have "card (set recs) \<le> length recs" by (rule card_length)
    moreover have "card (set ?av) \<le> length ?av" by (rule card_length)
    ultimately have "int (length ?av) \<ge> n - int (length recs)"
      using assms(3) by simp
    then have "length drawn = nat (n - int (length recs))" using d(2) by linarith
    then have "int (length (recs @ drawn)) = n" using True by simp
    with d(1) show ?thesis by (auto simp: pad_none_exact)
  qed
qed

theorem min_quality_zero_witness:
  "\<exists>res. fst (recommend id (init [] [(1, 80), (2, 60), (3, 40)] [1, 2, 3] 0) 1 2 0) = Inr res
      \<and> int (length res) = 2 \<and> None \<notin> set res"
proof -
  let ?r = "init [] [(1, 80), (2, 60), (3, 40)] [1, 2, 3] 0"
  have a: "(2 :: int) \<ge> 1" by simp
  have b: "\<forall>(c', s) \<in> set (quality_metrics ?r). s \<ge> 0" by (simp add: init_def)
  have c: "int (card (fst ` set (quality_metrics ?r))) \<ge> 2 + 1" by (simp add: init_def)
  from min_quality_zero [OF a b c, of id 1] show ?thesis .
qed

subsection \<open>Arguments are not validated\<close>

text \<open>
  Claim C8, as stated, has a negative \<open>n\<close> rejected. The lookup for course 101 of the
  three-user example with \<open>n = -1\<close> returns the list \<open>[102]\<close> as an ordinary result.
\<close>

theorem no_validation_counterexample:
  "get_recommendations
     (init [((101, 102), 1), ((101, 103), 1), ((102, 103), 1)]
        [(101, 80), (102, 60), (103, 40)] [101, 102, 103] 0) 101 (- 1) 50 = Inr [102]"
  by (simp add: get_recommendations_def example_index_101)
     (simp add: init_def Let_def get_course_score_def)

text \<open>
  Claim C8, amended. The lookup checks none of its arguments: it returns a list for every
  \<open>n\<close>, and for \<open>n \<le> 0\<close> on a course with an index entry that list is the first
  candidate alone when it passes the quality filter, and empty otherwise.
\<close>

theorem no_validation:
  "(\<exists>recs. get_recommendations self c n mq = Inr recs)
   \<and> (n \<le> 0 \<and> recommendation_index self c = Some ((cand, w) # rest) \<longrightarrow>
        get_recommendations self c n mq =
          Inr (if get_course_score (quality_metrics self) cand * 100 \<ge> mq then [cand] else []))"
  by (auto simp: get_recommendations_def Let_def split: option.splits)

theorem no_validation_witness:
  "get_recommendations
     (init [((101, 102), 1), ((101, 103), 1), ((102, 103), 1)]
        [(101, 80), (102, 60), (103, 40)] [101, 102, 103] 0) 101 (- 3) 50 = Inr [102]"
proof -
  let ?r = "init [((101, 102), 1), ((101, 103), 1), ((102, 103), 1)]
        [(101, 80), (102, 60), (103, 40)] [101, 102, 103] 0"
  have i: "(- 3 :: int) \<le> 0 \<and> recommendation_index ?r 101 = Some ((102, 7 / 10) # [(103, 3 / 5)])"
    by (simp add: example_index_101)
  have s: "get_course_score (quality_metrics ?r) 102 * 100 \<ge> 50"
    by (simp add: init_def Let_def get_course_score_def)
  from no_validation [of ?r 101 "- 3" 50 102 "7 / 10" "[(103, 3 / 5)]"] i
  have "get_recommendations ?r 101 (- 3) 50 =
          Inr (if get_course_score (quality_metrics ?r) 102 * 100 \<ge> 50 then [102] else [])"
    by blast
  with s show ?thesis by simp
qed

section \<open>Pair aggregation\<close>

subsection \<open>Purchase logs without repeated rows\<close>

lemma map_of_counter_incr:
  "map_of (counter_incr k m) =
     (map_of m)(k \<mapsto> (case map_of m k of None \<Rightarrow> 1 | Some c \<Rightarrow> c + 1))"
  by (induction m) (auto simp: fun_eq_iff)

lemma keys_counter_incr:
  "map fst (counter_incr k m) = (if k \<in> fst ` set m then map fst m else map fst m @ [k])"
  by (induction m) (auto simp: image_iff, force+)

lemma distinct_counter_incr:
  "distinct (map fst m) \<Longrightarrow> distinct (map fst (counter_incr k m))"
  by (simp add: keys_counter_incr)

lemma map_of_counter_fold:
  "map_of (foldl (\<lambda>m k. counter_incr k m) m xs) k =
     (if k \<in> set xs \<or> map_of m k \<noteq> None
      then Some ((case map_of m k of None \<Rightarrow> 0 | Some c \<Rightarrow> c) + int (count_list xs k))
      else None)"
proof (induction xs arbitrary: m)
  case Nil
  then show ?case by (cases "map_of m k") simp_all
next
  case (Cons x xs)
  show ?case
  proof (cases "x = k")
    case True
    then show ?thesis
      by (cases "map_of m k") (simp_all add: Cons.IH map_of_counter_incr)
  next
    case False
    then show ?thesis
      by (cases "map_of m k") (simp_all add: Cons.IH map_of_counter_incr)
  qed
qed

lemma distinct_counter_fold:
  "distinct (map fst m) \<Longrightarrow> distinct (map fst (foldl (\<lambda>m k. counter_incr k m) m xs))"
  by (induction xs arbitrary: m) (simp_all add: distinct_counter_incr)


lemma Counter_mem:
  "(k, n) \<in> set (Counter xs) \<longleftrightarrow> k \<in> set xs \<and> n = int (count_list xs k)"
proof -
  have d: "distinct (map fst (Counter xs))"
    unfolding Counter_def by (rule distinct_counter_fold) simp
  have m: "map_of (Counter xs) k = (if k \<in> set xs then Some (int (count_list xs k)) else None)"
    unfolding Counter_def by (simp add: map_of_counter_fold)
  have "(k, n) \<in> set (Counter xs) \<longleftrightarrow> map_of (Counter xs) k = Some n"
    using d by simp
  with m show ?thesis by auto
qed

lemma count_map_Pair:
  "distinct xs \<Longrightarrow> count_list (map (Pair x) xs) (a, b) = (if a = x \<and> b \<in> set xs then 1 else 0)"
  by (induction xs) auto

lemma count_combinations2:
  fixes xs :: "int list"
  assumes "sorted xs" and "distinct xs"
  shows "count_list (combinations2 xs) (a, b) =
     (if a < b \<and> a \<in> set xs \<and> b \<in> set xs then 1 else 0)"
  using assms
proof (induction xs)
  case Nil
  then show ?case by simp
next
  case (Cons x xs)
  from Cons.prems have lt: "\<forall>y \<in> set xs. x < y" by (auto simp: less_le)
  from Cons.prems have ih: "count_list (combinations2 xs) (a, b) =
     (if a < b \<and> a \<in> set xs \<and> b \<in> set xs then 1 else 0)"
    using Cons.IH by simp
  from Cons.prems have d: "distinct xs" by simp
  have e: "count_list (combinations2 (x # xs)) (a, b) =
     (if a = x \<and> b \<in> set xs then 1 else 0) +
     (if a < b \<and> a \<in> set xs \<and> b \<in> set xs then 1 else 0)"
    by (simp add: ih count_map_Pair [OF d])
  show ?case unfolding e using lt by auto
qed


lemma count_user_pairs:
  assumes "distinct courses"
  shows "count_list (user_pairs courses) (a, b) =
     (if a < b \<and> a \<in> set courses \<and> b \<in> set courses then 1 else 0)"
proof (cases "length courses \<ge> 2")
  case True
  then show ?thesis
    using count_combinations2 [of "sort courses" a b] assms by (simp add: user_pairs_def)
next
  case False
  have "\<not> (a < b \<and> a \<in> set courses \<and> b \<in> set courses)"
  proof
    assume h: "a < b \<and> a \<in> set courses \<and> b \<in> set courses"
    then have "{a, b} \<subseteq> set courses" and "a \<noteq> b" by auto
    have "card {a, b} \<le> card (set courses)"
      by (rule card_mono) (use \<open>{a, b} \<subseteq> set courses\<close> in simp_all)
    moreover have "card {a, b} = 2" using \<open>a \<noteq> b\<close> by simp
    moreover have "card (set courses) \<le> length courses" by (rule card_length)
    ultimately show False using False by linarith
  qed
  with False show ?thesis by (simp add: user_pairs_def)
qed

lemma distinct_user_courses:
  assumes "distinct rows"
  shows "distinct (map snd (filter (\<lambda>r. fst r = u) rows))"
proof -
  have "inj_on snd (set (filter (\<lambda>r. fst r = u) rows))"
    by (auto simp: inj_on_def)
  with assms show ?thesis by (simp add: distinct_map)
qed

lemma sum_list_indicator:
  "distinct us \<Longrightarrow> sum_list (map (\<lambda>u. if P u then 1 else 0) us) = card {u \<in> set us. P u}"
proof (induction us)
  case Nil
  then show ?case by simp
next
  case (Cons u us)
  have "{v \<in> set (u # us). P v} = (if P u then insert u {v \<in> set us. P v} else {v \<in> set us. P v})"
    by auto
  with Cons show ?case by simp
qed

lemma count_all_pairs:
  assumes "distinct rows"
  shows "count_list (all_pairs rows) (a, b) =
     (if a < b then card {u. (u, a) \<in> set rows \<and> (u, b) \<in> set rows} else 0)"
proof -
  let ?us = "sort (remdups (map fst rows))"
  let ?cs = "\<lambda>u. map snd (filter (\<lambda>r. fst r = u) rows)"
  have "all_pairs rows = concat (map (\<lambda>u. user_pairs (?cs u)) ?us)"
    by (simp add: all_pairs_def groupby_user_def comp_def)
  then have "count_list (all_pairs rows) (a, b) =
      sum_list (map (\<lambda>u. count_list (user_pairs (?cs u)) (a, b)) ?us)"
    by (simp add: count_list_concat_map)
  also have "\<dots> = sum_list (map (\<lambda>u. if a < b \<and> (u, a) \<in> set rows \<and> (u, b) \<in> set rows
        then 1 else 0) ?us)"
  proof -
    have mem: "c \<in> set (?cs u) \<longleftrightarrow> (u, c) \<in> set rows" for u c by force
    have "count_list (user_pairs (?cs u)) (a, b) =
        (if a < b \<and> (u, a) \<in> set rows \<and> (u, b) \<in> set rows then 1 else 0)" for u
      by (simp only: count_user_pairs [OF distinct_user_courses [OF assms]] mem)
    then show ?thesis by (simp only:)
  qed
  also have "\<dots> = card {u \<in> set ?us. a < b \<and> (u, a) \<in> set rows \<and> (u, b) \<in> set rows}"
    by (rule sum_list_indicator) simp
  also have "\<dots> = (if a < b then card {u. (u, a) \<in> set rows \<and> (u, b) \<in> set rows} else 0)"
  proof (cases "a < b")
    case True
    have "{u \<in> set ?us. a < b \<and> (u, a) \<in> set rows \<and> (u, b) \<in> set rows}
        = {u. (u, a) \<in> set rows \<and> (u, b) \<in> set rows}"
      using True by force
    with True show ?thesis by simp
  next
    case False
    then show ?thesis by simp
  qed
  finally show ?thesis .
qed

text \<open>
  When no (user, course) row is repeated, the aggregation is the one the specification
  describes: the keys are the pairs \<open>a < b\<close> that at least one user bought together, and
  the count of a pair is the number of users who bought both.
\<close>

lemma analyze_joint_purchases_distinct_rows:
  assumes "distinct purchase_data"
  shows "((a, b), n) \<in> set (analyze_joint_purchases purchase_data) \<longleftrightarrow>
     a < b \<and> 0 < n
     \<and> n = int (card {u. (u, a) \<in> set purchase_data \<and> (u, b) \<in> set purchase_data})"
proof -
  have "(a, b) \<in> set (all_pairs purchase_data) \<longleftrightarrow> 0 < count_list (all_pairs purchase_data) (a, b)"
    using count_list_0_iff [of "all_pairs purchase_data" "(a, b)"] by auto
  then show ?thesis
    by (auto simp: analyze_joint_purchases_def Counter_mem count_all_pairs [OF assms])
qed

subsection \<open>Repeated purchase rows\<close>

lemma dup_pairs:
  "analyze_joint_purchases [(1, 101), (1, 101), (1, 102)] = [((101, 101), 1), ((101, 102), 2)]"
  by (simp add: analyze_joint_purchases_def all_pairs_def groupby_user_def user_pairs_def
      Counter_def)

lemma dup_index_101:
  "recommendation_index (init [((101, 101), 1), ((101, 102), 2)] [] cs 0) 101
     = Some [(102, 1), (101, 1 / 2), (101, 1 / 2)]"
  by (simp add: index_init build_recommendation_index_def inserted_edges_eq pair_weight_def
      get_course_score_def sort_edges_def)

text \<open>
  Claim C1 asks that every key of the pair counts hold two distinct courses and that the
  count of a pair be the number of distinct users who bought both. The aggregation keeps a
  user's repeated rows (\<^verbatim>\<open>apply(list)\<close> does not remove them), so a user who bought
  course 101 twice and course 102 once yields the key \<open>(101, 101)\<close> and the count 2 for
  \<open>(101, 102)\<close>, although one user bought both. Downstream, course 101 is then recommended
  for course 101.
\<close>

theorem duplicate_purchase_rows:
  "analyze_joint_purchases [(1, 101), (1, 101), (1, 102)]
     = [((101, 101), 1), ((101, 102), 2)]
   \<and> get_recommendations
        (init (analyze_joint_purchases [(1, 101), (1, 101), (1, 102)]) [] [101, 102] 0)
        101 2 0 = Inr [102, 101]"
proof -
  have "get_recommendations (init [((101, 101), 1), ((101, 102), 2)] [] [101, 102] 0) 101 2 0
      = Inr [102, 101]"
    by (simp add: get_recommendations_def dup_index_101)
       (simp add: init_def Let_def get_course_score_def)
  then show ?thesis by (simp add: dup_pairs)
qed

section \<open>The scenario of the specification\<close>

text \<open>
  Claim C9. For the purchase log of three users (user 1: 101 and 102, user 2: 101 and
  103, user 3: 102 and 103) the aggregated pair counts are one for each of the three
  pairs; with threshold 0 and quality scores 80, 60 and 40 the lookup for course 101 with
  \<open>n = 1\<close> and \<open>min_quality = 50\<close> returns exactly \<open>[102]\<close>, whatever the random source.
\<close>

theorem scenario_101:
  "analyze_joint_purchases [(1, 101), (1, 102), (2, 101), (2, 103), (3, 102), (3, 103)]
     = [((101, 102), 1), ((101, 103), 1), ((102, 103), 1)]
   \<and> get_recommendations
        (init (analyze_joint_purchases
                 [(1, 101), (1, 102), (2, 101), (2, 103), (3, 102), (3, 103)])
           [(101, 80), (102, 60), (103, 40)] [101, 102, 103] 0) 101 1 50 = Inr [102]
   \<and> fst (recommend g
        (init (analyze_joint_purchases
                 [(1, 101), (1, 102), (2, 101), (2, 103), (3, 102), (3, 103)])
           [(101, 80), (102, 60), (103, 40)] [101, 102, 103] 0) 101 1 50) = Inr [Some 102]"
proof -
  have gr: "get_recommendations
        (init [((101, 102), 1), ((101, 103), 1), ((102, 103), 1)]
           [(101, 80), (102, 60), (103, 40)] [101, 102, 103] 0) 101 1 50 = Inr [102]"
    by (simp add: get_recommendations_def example_index_101)
       (simp add: init_def Let_def get_course_score_def)
  then have "fst (recommend g
        (init [((101, 102), 1), ((101, 103), 1), ((102, 103), 1)]
           [(101, 80), (102, 60), (103, 40)] [101, 102, 103] 0) 101 1 50) = Inr [Some 102]"
    by (simp add: recommend_def pad_none_def)
  with gr show ?thesis by (simp add: example_pairs)
qed

end
